theory Spec2Isabelle
  imports Main "HOL-Library.Char_ord" "HOL-Library.List_Lexorder"
begin

section \<open>Values\<close>

text \<open>
  The program of \<^verbatim>\<open>data_tool.py\<close> handles the values that \<^verbatim>\<open>json.load\<close> and
  \<^verbatim>\<open>csv.DictReader\<close> return. Text is a \<^typ>\<open>string\<close>; the standard library's treatment of
  characters (escapes, white space, digits) is modelled for ASCII text, and a byte above 127 is
  taken to belong to a printable character. A finite double is kept as the text that
  \<^verbatim>\<open>float.__repr__\<close> prints for it, since nothing in the program computes with it.
\<close>

datatype pyfloat = Finite string | PosInf | NegInf | NaN

datatype json =
    JNull
  | JBool bool
  | JInt int
  | JFloat pyfloat
  | JStr string
  | JArr "json list"
  | JObj "(string \<times> json) list"

text \<open>
  A dictionary is an association list in insertion order. The dictionaries that
  \<^verbatim>\<open>csv.DictReader\<close> builds may hold the key \<^verbatim>\<open>None\<close> (its \<^verbatim>\<open>restkey\<close>), so their keys are
  \<^typ>\<open>string option\<close>; a row handed to the validator or the summary is either a value read by
  \<^verbatim>\<open>json.load\<close> or such a dictionary.
\<close>

type_synonym csvdict = "(string option \<times> json) list"

datatype row = JRow json | CRow csvdict

datatype exn =
    FileNotFoundError
  | AttributeError string
  | ValueError string
  | RuntimeFailure string

text \<open>
  \<^const>\<open>RuntimeFailure\<close> stands for whatever else \<^verbatim>\<open>open\<close>, \<^verbatim>\<open>json.load\<close> or \<^verbatim>\<open>csv.reader\<close>
  raise (a decoding error, a malformed document), with its message.
\<close>

subsection \<open>Dictionaries\<close>

fun dict_set :: "'k \<Rightarrow> 'v \<Rightarrow> ('k \<times> 'v) list \<Rightarrow> ('k \<times> 'v) list" where
  "dict_set k v [] = [(k, v)]"
| "dict_set k v ((k', v') # d) =
     (if k = k' then (k, v) # d else (k', v') # dict_set k v d)"

definition py_dict :: "('k \<times> 'v) list \<Rightarrow> ('k \<times> 'v) list" where
  "py_dict kvs = foldl (\<lambda>d (k, v). dict_set k v d) [] kvs"

subsection \<open>Characters and numerals\<close>

definition squote :: char where "squote = CHR 0x27"
definition dquote :: char where "dquote = CHR 0x22"
definition backslash :: char where "backslash = CHR 0x5C"

definition is_digit :: "char \<Rightarrow> bool" where
  "is_digit c = (c \<in> set ''0123456789'')"

definition is_space :: "char \<Rightarrow> bool" where
  "is_space c = (c \<in> set [CHR '' '', CHR 0x09, CHR 0x0A, CHR 0x0B, CHR 0x0C, CHR 0x0D])"

definition lower :: "char \<Rightarrow> char" where
  "lower c = (if CHR ''A'' \<le> c \<and> c \<le> CHR ''Z'' then char_of (of_char c + (32::nat)) else c)"

definition hex_digit :: "nat \<Rightarrow> char" where
  "hex_digit n = ''0123456789abcdef'' ! (n mod 16)"

fun str_nat :: "nat \<Rightarrow> string" where
  "str_nat n = (if n < 10 then [hex_digit n] else str_nat (n div 10) @ [hex_digit (n mod 10)])"

declare str_nat.simps [simp del]

definition str_int :: "int \<Rightarrow> string" where
  "str_int i = (if i < 0 then CHR ''-'' # str_nat (nat (- i)) else str_nat (nat i))"

fun join :: "string \<Rightarrow> string list \<Rightarrow> string" where
  "join sep [] = []"
| "join sep [x] = x"
| "join sep (x # y # ys) = x @ sep @ join sep (y # ys)"

subsection \<open>\<^verbatim>\<open>repr\<close>, \<^verbatim>\<open>str\<close> and \<^verbatim>\<open>json.dumps\<close>\<close>

definition float_repr :: "pyfloat \<Rightarrow> string" where
  "float_repr f = (case f of Finite s \<Rightarrow> s | PosInf \<Rightarrow> ''inf'' | NegInf \<Rightarrow> ''-inf'' | NaN \<Rightarrow> ''nan'')"

definition repr_char :: "char \<Rightarrow> char \<Rightarrow> string" where
  "repr_char q c =
     (if c = q \<or> c = backslash then [backslash, c]
      else if c = CHR 0x09 then [backslash, CHR ''t'']
      else if c = CHR 0x0A then [backslash, CHR ''n'']
      else if c = CHR 0x0D then [backslash, CHR ''r'']
      else if (of_char c :: nat) < 32 \<or> c = CHR 0x7F
        then [backslash, CHR ''x'', hex_digit (of_char c div 16), hex_digit (of_char c mod 16)]
      else [c])"

definition str_repr :: "string \<Rightarrow> string" where
  "str_repr s =
     (let q = (if squote \<in> set s \<and> dquote \<notin> set s then dquote else squote)
      in q # concat (map (repr_char q) s) @ [q])"

fun py_repr :: "json \<Rightarrow> string" where
  "py_repr JNull = ''None''"
| "py_repr (JBool b) = (if b then ''True'' else ''False'')"
| "py_repr (JInt i) = str_int i"
| "py_repr (JFloat f) = float_repr f"
| "py_repr (JStr s) = str_repr s"
| "py_repr (JArr xs) = ''['' @ join '', '' (map py_repr xs) @ '']''"
| "py_repr (JObj kvs) =
     ''{'' @ join '', '' (map (\<lambda>(k, v). str_repr k @ '': '' @ py_repr v) kvs) @ ''}''"

definition py_str :: "json \<Rightarrow> string" where
  "py_str v = (case v of JStr s \<Rightarrow> s | _ \<Rightarrow> py_repr v)"

definition json_char :: "char \<Rightarrow> string" where
  "json_char c =
     (if c = dquote \<or> c = backslash then [backslash, c]
      else if c = CHR 0x08 then [backslash, CHR ''b'']
      else if c = CHR 0x0C then [backslash, CHR ''f'']
      else if c = CHR 0x0A then [backslash, CHR ''n'']
      else if c = CHR 0x0D then [backslash, CHR ''r'']
      else if c = CHR 0x09 then [backslash, CHR ''t'']
      else if (of_char c :: nat) < 32
        then [backslash, CHR ''u'', CHR ''0'', CHR ''0'',
              hex_digit (of_char c div 16), hex_digit (of_char c mod 16)]
      else [c])"

definition json_string :: "string \<Rightarrow> string" where
  "json_string s = dquote # concat (map json_char s) @ [dquote]"

definition json_float :: "pyfloat \<Rightarrow> string" where
  "json_float f =
     (case f of Finite s \<Rightarrow> s | PosInf \<Rightarrow> ''Infinity'' | NegInf \<Rightarrow> ''-Infinity'' | NaN \<Rightarrow> ''NaN'')"

fun json_dumps :: "json \<Rightarrow> string" where
  "json_dumps JNull = ''null''"
| "json_dumps (JBool b) = (if b then ''true'' else ''false'')"
| "json_dumps (JInt i) = str_int i"
| "json_dumps (JFloat f) = json_float f"
| "json_dumps (JStr s) = json_string s"
| "json_dumps (JArr xs) = ''['' @ join '', '' (map json_dumps xs) @ '']''"
| "json_dumps (JObj kvs) =
     ''{'' @ join '', '' (map (\<lambda>(k, v). json_string k @ '': '' @ json_dumps v) kvs) @ ''}''"

text \<open>The exception of an attribute lookup on a value that is not a dictionary.\<close>

definition type_name :: "json \<Rightarrow> string" where
  "type_name v =
     (case v of
        JNull \<Rightarrow> ''NoneType''
      | JBool b \<Rightarrow> ''bool''
      | JInt i \<Rightarrow> ''int''
      | JFloat f \<Rightarrow> ''float''
      | JStr s \<Rightarrow> ''str''
      | JArr xs \<Rightarrow> ''list''
      | JObj kvs \<Rightarrow> ''dict'')"

definition no_attribute :: "json \<Rightarrow> string \<Rightarrow> exn" where
  "no_attribute v name =
     AttributeError
       (squote # type_name v @ squote # '' object has no attribute '' @ squote # name @ [squote])"

subsection \<open>\<^verbatim>\<open>int(val)\<close> and \<^verbatim>\<open>float(val)\<close>: when they raise\<close>

definition py_strip :: "string \<Rightarrow> string" where
  "py_strip s = rev (dropWhile is_space (rev (dropWhile is_space s)))"

definition drop_sign :: "string \<Rightarrow> string" where
  "drop_sign s = (case s of [] \<Rightarrow> [] | c # cs \<Rightarrow> if c = CHR ''+'' \<or> c = CHR ''-'' then cs else s)"

text \<open>
  \<^verbatim>\<open>int\<close> of a text: white space around, a sign, then decimal digits in groups separated by
  single underscores; the flag tells whether the character before was a digit. The bound
  that an interpreter may set on the number of digits is left out.
\<close>

fun digit_run :: "bool \<Rightarrow> string \<Rightarrow> bool" where
  "digit_run prev_digit [] = prev_digit"
| "digit_run prev_digit (c # cs) =
     (if is_digit c then digit_run True cs
      else if c = CHR ''_'' then prev_digit \<and> digit_run False cs
      else False)"

definition int_of_str_ok :: "string \<Rightarrow> bool" where
  "int_of_str_ok s = digit_run False (drop_sign (py_strip s))"

text \<open>The underscore rule of float literals: an underscore stands between two digits.\<close>

fun underscores_ok :: "char \<Rightarrow> string \<Rightarrow> bool" where
  "underscores_ok prev [] = (prev \<noteq> CHR ''_'')"
| "underscores_ok prev (c # cs) =
     (if c = CHR ''_'' then is_digit prev \<and> underscores_ok c cs
      else (prev = CHR ''_'' \<longrightarrow> is_digit c) \<and> underscores_ok c cs)"

definition exponent_ok :: "string \<Rightarrow> bool" where
  "exponent_ok s =
     (case s of [] \<Rightarrow> True
      | c # cs \<Rightarrow> (c = CHR ''e'' \<or> c = CHR ''E'') \<and>
          (let ds = drop_sign cs in ds \<noteq> [] \<and> list_all is_digit ds))"

definition decimal_ok :: "string \<Rightarrow> bool" where
  "decimal_ok s =
     (let ip = takeWhile is_digit s; r1 = dropWhile is_digit s
      in case r1 of
           [] \<Rightarrow> ip \<noteq> []
         | c # cs \<Rightarrow>
             if c = CHR ''.''
             then (ip \<noteq> [] \<or> takeWhile is_digit cs \<noteq> []) \<and> exponent_ok (dropWhile is_digit cs)
             else ip \<noteq> [] \<and> exponent_ok r1)"

definition float_of_str_ok :: "string \<Rightarrow> bool" where
  "float_of_str_ok s =
     (let t = py_strip s
      in underscores_ok (CHR 0x00) t \<and>
         (let u = drop_sign (filter (\<lambda>c. c \<noteq> CHR ''_'') t)
          in map lower u \<in> set [''inf'', ''infinity'', ''nan''] \<or> decimal_ok u))"

text \<open>
  On other values: a list or a dictionary is a type error for both; \<^verbatim>\<open>int\<close> raises on an
  infinity or a NaN, \<^verbatim>\<open>float\<close> on an integer that rounds beyond the largest double.
\<close>

definition int_ok :: "json \<Rightarrow> bool" where
  "int_ok val =
     (case val of
        JStr s \<Rightarrow> int_of_str_ok s
      | JInt i \<Rightarrow> True
      | JBool b \<Rightarrow> True
      | JFloat f \<Rightarrow> (case f of Finite s \<Rightarrow> True | _ \<Rightarrow> False)
      | _ \<Rightarrow> False)"

definition float_ok :: "json \<Rightarrow> bool" where
  "float_ok val =
     (case val of
        JStr s \<Rightarrow> float_of_str_ok s
      | JInt i \<Rightarrow> \<bar>i\<bar> < 2 ^ 1024 - 2 ^ 970
      | JBool b \<Rightarrow> True
      | JFloat f \<Rightarrow> True
      | _ \<Rightarrow> False)"

section \<open>Files\<close>

text \<open>
  What the program finds at a path: nothing, or a file, given by what \<^verbatim>\<open>json.load\<close> makes
  of it and by what \<^verbatim>\<open>csv.reader\<close> yields for it: the rows it parses, then either the end
  of the input or an exception. A file that cannot be opened or decoded has an exception
  in both places and no rows.
\<close>

datatype source_file = Missing | File "exn + json" "string list list" "exn option"

definition json_load :: "source_file \<Rightarrow> exn + json" where
  "json_load p = (case p of Missing \<Rightarrow> Inl FileNotFoundError | File j ls err \<Rightarrow> j)"

section \<open>The record reader\<close>

text \<open>\<^verbatim>\<open>DictReader.__next__\<close> from a row that is not blank.\<close>

definition dict_row :: "string list \<Rightarrow> string list \<Rightarrow> csvdict" where
  "dict_row fieldnames r =
     (let d = py_dict (zip (map Some fieldnames) (map JStr r));
          lf = length fieldnames;
          lr = length r
      in if lf < lr then dict_set None (JArr (map JStr (drop lf r))) d
         else if lf > lr then foldl (\<lambda>d key. dict_set (Some key) JNull d) d (drop lr fieldnames)
         else d)"

definition cap_reached :: "int option \<Rightarrow> nat \<Rightarrow> bool" where
  "cap_reached max_rows n = (case max_rows of None \<Rightarrow> False | Some m \<Rightarrow> m \<noteq> 0 \<and> int n \<ge> m)"

fun read_csv_loop ::
  "string list \<Rightarrow> int option \<Rightarrow> nat \<Rightarrow> string list list \<Rightarrow> exn option \<Rightarrow> csvdict list
     \<Rightarrow> exn + csvdict list" where
  "read_csv_loop fieldnames max_rows i [] err rows =
     (case err of None \<Rightarrow> Inr rows | Some e \<Rightarrow> Inl e)"
| "read_csv_loop fieldnames max_rows i (r # rs) err rows =
     (if r = [] then read_csv_loop fieldnames max_rows i rs err rows
      else let rows' = rows @ [dict_row fieldnames r]
           in if cap_reached max_rows (i + 1) then Inr rows'
              else read_csv_loop fieldnames max_rows (i + 1) rs err rows')"

definition read_csv :: "source_file \<Rightarrow> int option \<Rightarrow> exn + csvdict list" where
  "read_csv p max_rows =
     (case p of
        Missing \<Rightarrow> Inl FileNotFoundError
      | File j ls err \<Rightarrow>
          (case ls of
             [] \<Rightarrow> (case err of None \<Rightarrow> Inr [] | Some e \<Rightarrow> Inl e)
           | fieldnames # rs \<Rightarrow> read_csv_loop fieldnames max_rows 0 rs err []))"

definition slice_to :: "int \<Rightarrow> 'a list \<Rightarrow> 'a list" where
  "slice_to n xs = (if 0 \<le> n then take (nat n) xs else take (length xs - nat (- n)) xs)"

definition read_json :: "source_file \<Rightarrow> int option \<Rightarrow> exn + json list" where
  "read_json p max_rows =
     (case json_load p of
        Inl e \<Rightarrow> Inl e
      | Inr data \<Rightarrow>
          (case data of
             JArr xs \<Rightarrow>
               Inr (case max_rows of None \<Rightarrow> xs | Some m \<Rightarrow> if m \<noteq> 0 then slice_to m xs else xs)
           | JObj kvs \<Rightarrow> Inr [data]
           | _ \<Rightarrow> Inl (ValueError ''JSON root must be an object or an array of objects'')))"

section \<open>Conversions\<close>

subsection \<open>\<^verbatim>\<open>csv_to_json\<close>\<close>

text \<open>\<^verbatim>\<open>list(reader)\<close>: every row that is not blank, or the reader's exception.\<close>

fun reader_list :: "string list \<Rightarrow> string list list \<Rightarrow> exn option \<Rightarrow> exn + csvdict list" where
  "reader_list fieldnames [] err = (case err of None \<Rightarrow> Inr [] | Some e \<Rightarrow> Inl e)"
| "reader_list fieldnames (r # rs) err =
     (if r = [] then reader_list fieldnames rs err
      else case reader_list fieldnames rs err of
             Inl e \<Rightarrow> Inl e
           | Inr ds \<Rightarrow> Inr (dict_row fieldnames r # ds))"

text \<open>
  \<^verbatim>\<open>json.dump\<close> writes the key \<^verbatim>\<open>None\<close> as \<^verbatim>\<open>"null"\<close>. The result of \<^verbatim>\<open>csv_to_json\<close> is the
  document it writes, as a value whose objects list their members as written; the output
  file is taken to be writable.
\<close>

definition dump_key :: "string option \<Rightarrow> string" where
  "dump_key k = (case k of None \<Rightarrow> ''null'' | Some s \<Rightarrow> s)"

definition dump_dict :: "csvdict \<Rightarrow> json" where
  "dump_dict d = JObj (map (\<lambda>(k, v). (dump_key k, v)) d)"

definition csv_to_json :: "source_file \<Rightarrow> exn + json" where
  "csv_to_json in_path =
     (case in_path of
        Missing \<Rightarrow> Inl FileNotFoundError
      | File j ls err \<Rightarrow>
          (case ls of
             [] \<Rightarrow> (case err of None \<Rightarrow> Inr (JArr []) | Some e \<Rightarrow> Inl e)
           | fieldnames # rs \<Rightarrow>
               (case reader_list fieldnames rs err of
                  Inl e \<Rightarrow> Inl e
                | Inr data \<Rightarrow> Inr (JArr (map dump_dict data)))))"

text \<open>What \<^verbatim>\<open>json.load\<close> returns for a written document: of members with the same name the
  last one counts, at the place of the first.\<close>

fun reloaded :: "json \<Rightarrow> json" where
  "reloaded (JArr xs) = JArr (map reloaded xs)"
| "reloaded (JObj kvs) = JObj (py_dict (map (\<lambda>(k, v). (k, reloaded v)) kvs))"
| "reloaded v = v"

subsection \<open>\<^verbatim>\<open>json_to_csv\<close>\<close>

text \<open>
  The outcome of \<^verbatim>\<open>json_to_csv\<close>: the rows written to the output file (the header row
  first), or an exception together with the rows written before it, if the output file
  had been opened by then. A row is the list of the texts of its cells.
\<close>

datatype csv_outcome = Wrote "string list list" | Failed exn "string list list option"

definition update_fields :: "string set \<Rightarrow> json \<Rightarrow> string set" where
  "update_fields fields item = (case item of JObj kvs \<Rightarrow> fields \<union> set (map fst kvs) | _ \<Rightarrow> fields)"

text \<open>\<^verbatim>\<open>item.get(k, default)\<close>\<close>

definition item_get :: "json \<Rightarrow> string \<Rightarrow> json \<Rightarrow> exn + json" where
  "item_get item k dflt =
     (case item of
        JObj kvs \<Rightarrow> Inr (case map_of kvs k of None \<Rightarrow> dflt | Some v \<Rightarrow> v)
      | _ \<Rightarrow> Inl (no_attribute item ''get''))"

definition is_container :: "json \<Rightarrow> bool" where
  "is_container v = (case v of JArr xs \<Rightarrow> True | JObj kvs \<Rightarrow> True | _ \<Rightarrow> False)"

fun build_row :: "json \<Rightarrow> string list \<Rightarrow> (string \<times> json) list \<Rightarrow> exn + (string \<times> json) list" where
  "build_row item [] row = Inr row"
| "build_row item (k # ks) row =
     (case item_get item k (JStr []) of
        Inl e \<Rightarrow> Inl e
      | Inr v \<Rightarrow>
          build_row item ks
            (dict_set k (if is_container v then JStr (json_dumps v) else v) row))"

text \<open>The text the \<^verbatim>\<open>csv\<close> writer puts in a cell.\<close>

definition cell_text :: "json \<Rightarrow> string" where
  "cell_text v = (case v of JNull \<Rightarrow> [] | JStr s \<Rightarrow> s | _ \<Rightarrow> py_str v)"

definition writerow :: "string list \<Rightarrow> (string \<times> json) list \<Rightarrow> string list" where
  "writerow fieldnames rowdict =
     map (\<lambda>key. cell_text (case map_of rowdict key of None \<Rightarrow> JStr [] | Some v \<Rightarrow> v)) fieldnames"

definition writeheader :: "string list \<Rightarrow> string list" where
  "writeheader fieldnames = writerow fieldnames (py_dict (zip fieldnames (map JStr fieldnames)))"

fun write_items :: "string list \<Rightarrow> json list \<Rightarrow> string list list \<Rightarrow> csv_outcome" where
  "write_items fields [] out = Wrote out"
| "write_items fields (item # items) out =
     (case build_row item fields [] of
        Inl e \<Rightarrow> Failed e (Some out)
      | Inr row \<Rightarrow> write_items fields items (out @ [writerow fields row]))"

definition json_to_csv :: "source_file \<Rightarrow> csv_outcome" where
  "json_to_csv in_path =
     (case json_load in_path of
        Inl e \<Rightarrow> Failed e None
      | Inr loaded \<Rightarrow>
          (let data = (case loaded of JObj kvs \<Rightarrow> JArr [loaded] | _ \<Rightarrow> loaded)
           in case data of
                JArr items \<Rightarrow>
                  (let fields = sorted_list_of_set (foldl update_fields {} items)
                   in write_items fields items [writeheader fields])
              | _ \<Rightarrow> Failed (ValueError ''JSON must be an array of objects or a single object'') None))"

section \<open>The schema validator\<close>

text \<open>\<^verbatim>\<open>r.get(key)\<close> on a row; \<^const>\<open>None\<close> when the key is not there.\<close>

definition row_get :: "row \<Rightarrow> string option \<Rightarrow> exn + json option" where
  "row_get r key =
     (case r of
        CRow d \<Rightarrow> Inr (map_of d key)
      | JRow item \<Rightarrow>
          (case item of
             JObj kvs \<Rightarrow> Inr (case key of None \<Rightarrow> None | Some k \<Rightarrow> map_of kvs k)
           | _ \<Rightarrow> Inl (no_attribute item ''get'')))"

text \<open>The body of the inner loop, once \<^verbatim>\<open>val = r.get(field)\<close> is known: the messages it
  appends.\<close>

definition check_field :: "nat \<Rightarrow> string \<Rightarrow> json \<Rightarrow> json option \<Rightarrow> string list" where
  "check_field i field tname got =
     (let val = (case got of None \<Rightarrow> JNull | Some v \<Rightarrow> v)
      in if val = JNull \<or> val = JStr []
         then [''row '' @ str_nat (i + 1) @ '': missing '' @ field]
         else if tname = JStr ''int''
         then (if int_ok val then []
               else [''row '' @ str_nat (i + 1) @ '': field '' @ field @ '' expected int, got ''
                       @ py_repr val])
         else if tname = JStr ''float''
         then (if float_ok val then []
               else [''row '' @ str_nat (i + 1) @ '': field '' @ field @ '' expected float, got ''
                       @ py_repr val])
         else if tname = JStr ''str''
         then []
         else [''unknown schema type for '' @ field @ '': '' @ py_str tname])"

fun validate_fields ::
  "nat \<Rightarrow> row \<Rightarrow> (string \<times> json) list \<Rightarrow> string list \<Rightarrow> exn + string list" where
  "validate_fields i r [] errors = Inr errors"
| "validate_fields i r ((field, tname) # schema) errors =
     (case row_get r (Some field) of
        Inl e \<Rightarrow> Inl e
      | Inr got \<Rightarrow> validate_fields i r schema (errors @ check_field i field tname got))"

fun validate_rows ::
  "nat \<Rightarrow> row list \<Rightarrow> (string \<times> json) list \<Rightarrow> string list \<Rightarrow> exn + string list" where
  "validate_rows i [] schema errors = Inr errors"
| "validate_rows i (r # rows) schema errors =
     (case validate_fields i r schema errors of
        Inl e \<Rightarrow> Inl e
      | Inr errors' \<Rightarrow> validate_rows (i + 1) rows schema errors')"

definition validate_schema :: "row list \<Rightarrow> (string \<times> json) list \<Rightarrow> exn + string list" where
  "validate_schema rows schema = validate_rows 0 rows schema []"

definition load_schema :: "source_file \<Rightarrow> exn + (string \<times> json) list" where
  "load_schema p =
     (case json_load p of
        Inl e \<Rightarrow> Inl e
      | Inr data \<Rightarrow>
          (case data of
             JObj kvs \<Rightarrow> Inr kvs
           | _ \<Rightarrow> Inl (ValueError ''Schema must be a JSON object mapping field -> type'')))"

section \<open>The command line\<close>

text \<open>What \<^verbatim>\<open>summarize_rows\<close> prints is left out; it raises where a row is not a dictionary.\<close>

definition row_keys :: "row \<Rightarrow> exn + string option list" where
  "row_keys r =
     (case r of
        CRow d \<Rightarrow> Inr (map fst d)
      | JRow item \<Rightarrow>
          (case item of
             JObj kvs \<Rightarrow> Inr (map (\<lambda>(k, v). Some k) kvs)
           | _ \<Rightarrow> Inl (no_attribute item ''keys'')))"

fun show_columns :: "row \<Rightarrow> string option list \<Rightarrow> exn + unit" where
  "show_columns r [] = Inr ()"
| "show_columns r (c # columns) =
     (case row_get r c of Inl e \<Rightarrow> Inl e | Inr v \<Rightarrow> show_columns r columns)"

fun show_rows :: "row list \<Rightarrow> string option list \<Rightarrow> exn + unit" where
  "show_rows [] columns = Inr ()"
| "show_rows (r # rows) columns =
     (case show_columns r columns of Inl e \<Rightarrow> Inl e | Inr u \<Rightarrow> show_rows rows columns)"

definition summarize_rows :: "row list \<Rightarrow> nat \<Rightarrow> exn + unit" where
  "summarize_rows rows n =
     (case rows of
        [] \<Rightarrow> Inr ()
      | r # rs \<Rightarrow>
          (case row_keys r of
             Inl e \<Rightarrow> Inl e
           | Inr columns \<Rightarrow> show_rows (take n rows) columns))"

text \<open>
  \<^verbatim>\<open>main\<close>, on the parsed command line. A subcommand comes with the files found at its
  paths and, where the format is chosen by the suffix, with \<^verbatim>\<open>p.suffix.lower()\<close>; output
  files are taken to be writable. The result is the exit status and the exception reported
  on the error stream, if any.
\<close>

datatype command =
    Summary string source_file
  | ConvertToJson source_file
  | ConvertToCsv source_file
  | Validate string source_file source_file

definition as_csv_rows :: "exn + csvdict list \<Rightarrow> exn + row list" where
  "as_csv_rows x = (case x of Inl e \<Rightarrow> Inl e | Inr ds \<Rightarrow> Inr (map CRow ds))"

definition as_json_rows :: "exn + json list \<Rightarrow> exn + row list" where
  "as_json_rows x = (case x of Inl e \<Rightarrow> Inl e | Inr xs \<Rightarrow> Inr (map JRow xs))"

text \<open>\<^verbatim>\<open>try: rows = a\<close>, \<^verbatim>\<open>except Exception: rows = b\<close>\<close>

definition try_except :: "exn + 'a \<Rightarrow> exn + 'a \<Rightarrow> exn + 'a" where
  "try_except a b = (case a of Inl e \<Rightarrow> b | Inr x \<Rightarrow> Inr x)"

fun main :: "command \<Rightarrow> int \<times> exn option" where
  "main (Summary suffix p) =
     (if p = Missing then (2, None)
      else
        case (if suffix = ''.csv'' then as_csv_rows (read_csv p (Some 20))
              else if suffix = ''.json'' then as_json_rows (read_json p (Some 20))
              else try_except (as_json_rows (read_json p (Some 20)))
                              (as_csv_rows (read_csv p (Some 20)))) of
          Inl exc \<Rightarrow> (1, Some exc)
        | Inr rows \<Rightarrow>
            (case summarize_rows rows 5 of
               Inl exc \<Rightarrow> (1, Some exc)
             | Inr u \<Rightarrow> (0, None)))"
| "main (ConvertToJson csv_path) =
     (case csv_to_json csv_path of
        Inl exc \<Rightarrow> (1, Some exc)
      | Inr doc \<Rightarrow> (0, None))"
| "main (ConvertToCsv json_path) =
     (case json_to_csv json_path of
        Failed exc written \<Rightarrow> (1, Some exc)
      | Wrote rows \<Rightarrow> (0, None))"
| "main (Validate suffix p schema_path) =
     (case (if suffix = ''.csv'' then as_csv_rows (read_csv p None)
            else if suffix = ''.json'' then as_json_rows (read_json p None)
            else try_except (as_json_rows (read_json p None))
                            (as_csv_rows (read_csv p None))) of
        Inl exc \<Rightarrow> (1, Some exc)
      | Inr rows \<Rightarrow>
          (case load_schema schema_path of
             Inl exc \<Rightarrow> (1, Some exc)
           | Inr schema \<Rightarrow>
               (case validate_schema rows schema of
                  Inl exc \<Rightarrow> (1, Some exc)
                | Inr errors \<Rightarrow> if errors = [] then (0, None) else (3, None))))"

declare main.simps [simp del]

section \<open>Notions used to state the properties\<close>

text \<open>A row that is a dictionary, and the value it holds for a field.\<close>

definition is_record :: "row \<Rightarrow> bool" where
  "is_record r = (case r of CRow d \<Rightarrow> True | JRow item \<Rightarrow> (case item of JObj kvs \<Rightarrow> True | _ \<Rightarrow> False))"

definition lookup :: "row \<Rightarrow> string \<Rightarrow> json option" where
  "lookup r field =
     (case r of
        CRow d \<Rightarrow> map_of d (Some field)
      | JRow item \<Rightarrow> (case item of JObj kvs \<Rightarrow> map_of kvs field | _ \<Rightarrow> None))"

text \<open>The messages of the validator for all rows and all schema entries, in order.\<close>

definition all_messages :: "nat \<Rightarrow> row list \<Rightarrow> (string \<times> json) list \<Rightarrow> string list" where
  "all_messages i rows schema =
     concat (map (\<lambda>(n, r). concat (map (\<lambda>(field, tname). check_field n field tname (lookup r field)) schema))
                 (enumerate i rows))"

text \<open>The values a record read from a delimited file may hold: a text or null for a field
  of the header, a list of texts for the cells beyond the header.\<close>

definition text_or_null :: "json \<Rightarrow> bool" where
  "text_or_null v = (case v of JStr s \<Rightarrow> True | JNull \<Rightarrow> True | _ \<Rightarrow> False)"

definition is_text :: "json \<Rightarrow> bool" where
  "is_text v = (case v of JStr s \<Rightarrow> True | _ \<Rightarrow> False)"

definition text_list :: "json \<Rightarrow> bool" where
  "text_list v = (case v of JArr xs \<Rightarrow> list_all is_text xs | _ \<Rightarrow> False)"

text \<open>
  The flattener, as the specification words it: the field names of a dataset are those of
  its records, and the cell of a record for a field is empty when the field is absent or
  null, the hierarchical text of a nested value, the default text of a scalar.
\<close>

definition is_object :: "json \<Rightarrow> bool" where
  "is_object v = (case v of JObj kvs \<Rightarrow> True | _ \<Rightarrow> False)"

definition field_names :: "json list \<Rightarrow> string set" where
  "field_names items = (\<Union>item \<in> set items. case item of JObj kvs \<Rightarrow> fst ` set kvs | _ \<Rightarrow> {})"

definition spec_cell :: "(string \<times> json) list \<Rightarrow> string \<Rightarrow> string" where
  "spec_cell kvs k =
     (case map_of kvs k of
        None \<Rightarrow> []
      | Some v \<Rightarrow> if v = JNull then [] else if is_container v then json_dumps v else py_str v)"

text \<open>
  Converting a delimited file to a document and the document back: \<^verbatim>\<open>json_to_csv\<close> on what
  \<^verbatim>\<open>json.load\<close> reads in the file that \<^verbatim>\<open>csv_to_json\<close> wrote. The text a record of the
  delimited file holds for a field is empty when the field is bound to null.
\<close>

definition round_trip :: "source_file \<Rightarrow> csv_outcome" where
  "round_trip in_path =
     (case csv_to_json in_path of
        Inl e \<Rightarrow> Failed e None
      | Inr doc \<Rightarrow> json_to_csv (File (Inr (reloaded doc)) [] None))"

definition record_text :: "csvdict \<Rightarrow> string \<Rightarrow> string" where
  "record_text d k = (case map_of d (Some k) of Some (JStr s) \<Rightarrow> s | _ \<Rightarrow> [])"

text \<open>What the loop of \<^verbatim>\<open>json_to_csv\<close> stores in the row of a record for a field.\<close>

definition stored :: "(string \<times> json) list \<Rightarrow> string \<Rightarrow> json" where
  "stored kvs k =
     (let v = (case map_of kvs k of None \<Rightarrow> JStr [] | Some v \<Rightarrow> v)
      in if is_container v then JStr (json_dumps v) else v)"

section \<open>The validator\<close>

lemma str_nat_1: "str_nat (Suc 0) = ''1''"
  by (simp add: str_nat.simps hex_digit_def)

lemma str_nat_2: "str_nat (Suc (Suc 0)) = ''2''"
  by (simp add: str_nat.simps hex_digit_def)

lemma row_get_record: "is_record r \<Longrightarrow> row_get r (Some field) = Inr (lookup r field)"
  by (auto simp: is_record_def row_get_def lookup_def split: row.splits json.splits)

lemma validate_fields_record:
  "is_record r \<Longrightarrow>
   validate_fields i r schema errors =
     Inr (errors @ concat (map (\<lambda>(field, tname). check_field i field tname (lookup r field)) schema))"
  by (induction schema arbitrary: errors) (auto simp: row_get_record)

lemma validate_rows_records:
  "list_all is_record rows \<Longrightarrow>
   validate_rows i rows schema errors = Inr (errors @ all_messages i rows schema)"
  by (induction rows arbitrary: i errors) (auto simp: validate_fields_record all_messages_def)

lemma check_field_missing:
  "got = None \<or> got = Some JNull \<or> got = Some (JStr []) \<Longrightarrow>
   check_field i field tname got = [''row '' @ str_nat (i + 1) @ '': missing '' @ field]"
  by (auto simp: check_field_def)








text \<open>
  C7: for rows that are records, the validator returns the messages of all rows and all
  schema entries in order, and where the field of a row is absent or holds the empty text
  the message of that pair is exactly \<^verbatim>\<open>row {i}: missing {field}\<close>, whatever the type tag:
  no type check is made. In particular \<^verbatim>\<open>validate([{}], {"a": "text"})\<close> is
  \<^verbatim>\<open>["row 1: missing a"]\<close>.
\<close>

theorem validate_missing_field:
  "(list_all is_record rows \<longrightarrow> validate_schema rows schema = Inr (all_messages 0 rows schema))
   \<and> (\<forall>i r field tname.
        lookup r field = None \<or> lookup r field = Some (JStr []) \<longrightarrow>
        check_field i field tname (lookup r field)
          = [''row '' @ str_nat (i + 1) @ '': missing '' @ field])
   \<and> validate_schema [JRow (JObj [])] [(''a'', JStr ''text'')] = Inr [''row 1: missing a'']"
proof (intro conjI impI allI)
  assume "list_all is_record rows"
  then show "validate_schema rows schema = Inr (all_messages 0 rows schema)"
    by (simp add: validate_schema_def validate_rows_records)
next
  fix i r field tname
  assume "lookup r field = None \<or> lookup r field = Some (JStr [])"
  then show "check_field i field tname (lookup r field)
               = [''row '' @ str_nat (i + 1) @ '': missing '' @ field]"
    by (auto simp: check_field_missing)
next
  show "validate_schema [JRow (JObj [])] [(''a'', JStr ''text'')] = Inr [''row 1: missing a'']"
    by (simp add: validate_schema_def row_get_def check_field_def str_nat_1)
qed

theorem validate_missing_field_witness:
  "list_all is_record [CRow [(Some ''a'', JStr [])], JRow (JObj [])]
   \<and> lookup (JRow (JObj [])) ''a'' = None
   \<and> validate_schema [CRow [(Some ''a'', JStr [])], JRow (JObj [])] [(''a'', JStr ''int'')]
       = Inr [''row 1: missing a'', ''row 2: missing a'']
   \<and> check_field 1 ''a'' (JStr ''int'') (lookup (JRow (JObj [])) ''a'') = [''row 2: missing a'']"
proof -
  let ?rows = "[CRow [(Some ''a'', JStr [])], JRow (JObj [])]"
  let ?schema = "[(''a'', JStr ''int'')]"
  note t = validate_missing_field [of ?rows ?schema]
  have recs: "list_all is_record ?rows"
    by (simp add: is_record_def)
  have absent: "lookup (JRow (JObj [])) ''a'' = None"
    by (simp add: lookup_def)
  from t recs have "validate_schema ?rows ?schema = Inr (all_messages 0 ?rows ?schema)"
    by blast
  moreover have "all_messages 0 ?rows ?schema = [''row 1: missing a'', ''row 2: missing a'']"
    by (simp add: all_messages_def lookup_def check_field_def str_nat_1 str_nat_2)
  moreover from t absent
  have "check_field 1 ''a'' (JStr ''int'') (lookup (JRow (JObj [])) ''a'')
          = [''row '' @ str_nat (1 + 1) @ '': missing '' @ ''a'']"
    by blast
  ultimately show ?thesis
    using recs absent by (simp add: str_nat_2)
qed

section \<open>Exit statuses and format detection\<close>

text \<open>
  C3: the \<^verbatim>\<open>validate\<close> subcommand does not look whether its input exists, as the
  \<^verbatim>\<open>summary\<close> subcommand does: for a missing input the failure of \<^verbatim>\<open>open\<close> is caught as any
  other exception and the status is 1, where \<^verbatim>\<open>summary\<close> gives 2. The status of \<^verbatim>\<open>validate\<close>
  is 0, 1 or 3, never 2.
\<close>

theorem main_validate_missing_path:
  "main (Validate suffix Missing schema_path) = (1, Some FileNotFoundError)
   \<and> main (Summary suffix Missing) = (2, None)
   \<and> fst (main (Validate suffix p schema_path)) \<in> {0, 1, 3}"
  by (auto simp: main.simps read_csv_def read_json_def json_load_def
        as_csv_rows_def as_json_rows_def try_except_def split: sum.splits)

theorem main_validate_missing_path_witness:
  "main (Validate ''.csv'' Missing (File (Inr (JObj [(''a'', JStr ''int'')])) [] None))
     = (1, Some FileNotFoundError)
   \<and> main (Summary ''.csv'' Missing) = (2, None)"
  using main_validate_missing_path
    [where suffix = "''.csv''" and schema_path = "File (Inr (JObj [(''a'', JStr ''int'')])) [] None"]
  by blast

section \<open>Dictionaries and the record reader\<close>

lemma map_of_dict_set: "map_of (dict_set k v d) = (map_of d)(k \<mapsto> v)"
  by (induction d) (auto simp: fun_eq_iff)

lemma keys_dict_set: "fst ` set (dict_set k v d) = insert k (fst ` set d)"
  by (induction d) (force split: if_splits)+

lemma distinct_dict_set: "distinct (map fst d) \<Longrightarrow> distinct (map fst (dict_set k v d))"
  by (induction d) (auto simp: keys_dict_set)

lemma set_dict_set: "set (dict_set k v d) \<subseteq> insert (k, v) (set d)"
  by (induction d) (auto split: if_splits)

lemma dict_set_new: "k \<notin> fst ` set d \<Longrightarrow> dict_set k v d = d @ [(k, v)]"
  by (induction d) auto

lemma map_of_fold_set:
  "map_of (foldl (\<lambda>d (k, v). dict_set k v d) acc kvs) = map_of acc ++ map_of (rev kvs)"
  by (induction kvs arbitrary: acc) (auto simp: map_of_dict_set fun_eq_iff map_add_def split: option.splits)

lemma keys_fold_set:
  "fst ` set (foldl (\<lambda>d (k, v). dict_set k v d) acc kvs) = fst ` set acc \<union> fst ` set kvs"
proof (induction kvs arbitrary: acc)
  case Nil
  then show ?case by simp
next
  case (Cons kv kvs)
  obtain k v where kv: "kv = (k, v)" by (cases kv)
  have "fst ` set (foldl (\<lambda>d (k, v). dict_set k v d) (dict_set k v acc) kvs)
          = insert k (fst ` set acc) \<union> fst ` set kvs"
    using Cons.IH [of "dict_set k v acc"] by (simp only: keys_dict_set)
  then show ?case by (simp add: kv)
qed

lemma distinct_fold_set:
  "distinct (map fst acc) \<Longrightarrow> distinct (map fst (foldl (\<lambda>d (k, v). dict_set k v d) acc kvs))"
  by (induction kvs arbitrary: acc) (auto simp: distinct_dict_set)

lemma set_fold_set:
  "set (foldl (\<lambda>d (k, v). dict_set k v d) acc kvs) \<subseteq> set acc \<union> set kvs"
proof (induction kvs arbitrary: acc)
  case Nil
  then show ?case by simp
next
  case (Cons kv kvs)
  obtain k v where kv: "kv = (k, v)" by (cases kv)
  show ?case
    using Cons.IH [of "dict_set k v acc"] set_dict_set [of k v acc] by (auto simp: kv)
qed

lemma fold_set_distinct:
  "distinct (map fst (acc @ kvs)) \<Longrightarrow> foldl (\<lambda>d (k, v). dict_set k v d) acc kvs = acc @ kvs"
proof (induction kvs arbitrary: acc)
  case Nil
  then show ?case by simp
next
  case (Cons kv kvs)
  obtain k v where kv: "kv = (k, v)" by (cases kv)
  from Cons.prems have new: "k \<notin> fst ` set acc" by (auto simp: kv)
  from Cons.prems have "distinct (map fst ((acc @ [(k, v)]) @ kvs))" by (simp add: kv)
  then show ?case
    using Cons.IH [of "acc @ [(k, v)]"] by (simp add: kv dict_set_new [OF new])
qed

lemma py_dict_distinct: "distinct (map fst kvs) \<Longrightarrow> py_dict kvs = kvs"
  using fold_set_distinct [of "[]" kvs] by (simp add: py_dict_def)

lemma map_of_pad:
  "map_of (foldl (\<lambda>d key. dict_set (Some key) JNull d) d ks) k =
     (if k \<in> Some ` set ks then Some JNull else map_of d k)"
  by (induction ks arbitrary: d) (auto simp: map_of_dict_set)

lemma keys_pad:
  "fst ` set (foldl (\<lambda>d key. dict_set (Some key) JNull d) d ks) = fst ` set d \<union> Some ` set ks"
  by (induction ks arbitrary: d) (auto simp: keys_dict_set)

lemma distinct_pad:
  "distinct (map fst d) \<Longrightarrow> distinct (map fst (foldl (\<lambda>d key. dict_set (Some key) JNull d) d ks))"
  by (induction ks arbitrary: d) (auto simp: distinct_dict_set)

lemma set_pad:
  "set (foldl (\<lambda>d key. dict_set (Some key) JNull d) d ks) \<subseteq> set d \<union> (\<lambda>k. (Some k, JNull)) ` set ks"
proof (induction ks arbitrary: d)
  case Nil
  then show ?case by simp
next
  case (Cons k ks)
  show ?case
    using Cons.IH [of "dict_set (Some k) JNull d"] set_dict_set [of "Some k" JNull d] by auto
qed

lemma distinct_dict_row: "distinct (map fst (dict_row fieldnames r))"
  by (simp add: dict_row_def Let_def py_dict_def distinct_pad distinct_dict_set distinct_fold_set)

lemma zip_keys:
  "fst ` set (zip (map Some fieldnames) (map JStr r)) = Some ` set (take (length r) fieldnames)"
proof -
  have "fst ` set (zip (map Some fieldnames) (map JStr r))
          = set (map fst (zip (map Some fieldnames) (map JStr r)))"
    by simp
  also have "\<dots> = set (take (min (length fieldnames) (length r)) (map Some fieldnames))"
    by (simp only: map_fst_zip_take length_map)
  also have "\<dots> = Some ` set (take (length r) fieldnames)"
    by (simp add: take_map min_def)
  finally show ?thesis .
qed

lemma set_take_drop: "set (take n xs) \<union> set (drop n xs) = set xs"
  using set_append [of "take n xs" "drop n xs"] by simp

lemma keys_dict_row:
  "fst ` set (dict_row fieldnames r) =
     Some ` set fieldnames \<union> (if length fieldnames < length r then {None} else {})"
proof -
  consider "length fieldnames < length r" | "length r < length fieldnames"
    | "length fieldnames = length r" by linarith
  then show ?thesis
  proof cases
    case 1
    then show ?thesis
      by (simp add: dict_row_def Let_def py_dict_def keys_dict_set keys_fold_set zip_keys)
  next
    case 2
    then show ?thesis
      using set_take_drop [of "length r" fieldnames]
      by (simp add: dict_row_def Let_def py_dict_def keys_pad keys_fold_set zip_keys
            image_Un [symmetric])
  next
    case 3
    then show ?thesis
      by (simp add: dict_row_def Let_def py_dict_def keys_fold_set zip_keys)
  qed
qed

lemma values_dict_row:
  assumes "(k, v) \<in> set (dict_row fieldnames r)"
  shows "(k \<noteq> None \<and> ((\<exists>s. v = JStr s) \<or> v = JNull))
         \<or> (k = None \<and> length fieldnames < length r \<and> v = JArr (map JStr (drop (length fieldnames) r)))"
proof -
  let ?z = "zip (map Some fieldnames) (map JStr r)"
  have zip_ok: "k' \<noteq> None \<and> (\<exists>s. v' = JStr s)" if "(k', v') \<in> set ?z" for k' v'
    using that by (auto simp: set_zip)
  have base: "set (py_dict ?z) \<subseteq> set ?z"
    using set_fold_set [of "[]" ?z] by (simp add: py_dict_def)
  consider "length fieldnames < length r" | "length r < length fieldnames"
    | "length fieldnames = length r" by linarith
  then show ?thesis
  proof cases
    case 1
    then have "(k, v) \<in> insert (None, JArr (map JStr (drop (length fieldnames) r))) (set (py_dict ?z))"
      using assms set_dict_set [of None "JArr (map JStr (drop (length fieldnames) r))" "py_dict ?z"]
      by (auto simp: dict_row_def Let_def)
    then show ?thesis
      using base zip_ok 1 by blast
  next
    case 2
    then have "(k, v) \<in> set (py_dict ?z) \<union> (\<lambda>k. (Some k, JNull)) ` set (drop (length r) fieldnames)"
      using assms set_pad [of "py_dict ?z" "drop (length r) fieldnames"]
      by (auto simp: dict_row_def Let_def)
    then show ?thesis
      using base zip_ok by blast
  next
    case 3
    then have "(k, v) \<in> set (py_dict ?z)"
      using assms by (simp add: dict_row_def Let_def)
    then show ?thesis
      using base zip_ok by blast
  qed
qed

lemma map_of_rev_zip_last:
  assumes "i < length ks" "i < length vs" "ks ! i \<notin> set (drop (Suc i) ks)"
  shows "map_of (rev (zip ks vs)) (ks ! i) = Some (vs ! i)"
proof -
  let ?z = "zip ks vs"
  have len: "i < length ?z" using assms by simp
  have split: "?z = take i ?z @ (ks ! i, vs ! i) # drop (Suc i) ?z"
    using id_take_nth_drop [OF len] assms by simp
  have "ks ! i \<notin> fst ` set (drop (Suc i) ?z)"
  proof
    assume "ks ! i \<in> fst ` set (drop (Suc i) ?z)"
    then obtain v where "(ks ! i, v) \<in> set (zip (drop (Suc i) ks) (drop (Suc i) vs))"
      by (auto simp: drop_zip)
    then have "ks ! i \<in> set (drop (Suc i) ks)" by (rule set_zip_leftD)
    with assms show False by simp
  qed
  then have none: "map_of (rev (drop (Suc i) ?z)) (ks ! i) = None"
    by (simp add: map_of_eq_None_iff)
  have "map_of (rev ?z) (ks ! i)
          = map_of (rev (drop (Suc i) ?z) @ (ks ! i, vs ! i) # rev (take i ?z)) (ks ! i)"
    by (subst split) simp
  also have "\<dots> = Some (vs ! i)"
    using none by (simp add: map_add_def)
  finally show ?thesis .
qed

lemma map_of_dict_row_field:
  assumes "i < length fieldnames" "fieldnames ! i \<notin> set (drop (Suc i) fieldnames)"
  shows "map_of (dict_row fieldnames r) (Some (fieldnames ! i))
           = Some (if i < length r then JStr (r ! i) else JNull)"
proof -
  let ?z = "zip (map Some fieldnames) (map JStr r)"
  have base: "map_of (py_dict ?z) = map_of (rev ?z)"
    using map_of_fold_set [of "[]" ?z] by (simp add: py_dict_def)
  show ?thesis
  proof (cases "i < length r")
    case True
    have last: "map Some fieldnames ! i \<notin> set (drop (Suc i) (map Some fieldnames))"
      using assms by (auto simp: drop_map)
    have hit: "map_of (rev ?z) (Some (fieldnames ! i)) = Some (JStr (r ! i))"
      using map_of_rev_zip_last [of i "map Some fieldnames" "map JStr r", OF _ _ last] assms True
      by simp
    have "fieldnames ! i \<notin> set (drop (length r) fieldnames)"
      using assms(2) True set_drop_subset_set_drop [of "Suc i" "length r" fieldnames] by auto
    then show ?thesis
      using True hit base assms(1)
      by (auto simp: dict_row_def Let_def map_of_dict_set map_of_pad)
  next
    case False
    then have short: "length r < length fieldnames" using assms(1) by simp
    have "fieldnames ! i \<in> set (drop (length r) fieldnames)"
      using False assms(1) by (auto simp: in_set_conv_nth intro!: exI [of _ "i - length r"])
    then show ?thesis
      using False short by (simp add: dict_row_def Let_def map_of_pad)
  qed
qed

lemma map_of_dict_row_rest:
  "map_of (dict_row fieldnames r) None
     = (if length fieldnames < length r then Some (JArr (map JStr (drop (length fieldnames) r)))
        else None)"
proof -
  have "None \<notin> fst ` set (dict_row fieldnames r)" if "\<not> length fieldnames < length r"
    using that by (auto simp: keys_dict_row)
  then have "map_of (dict_row fieldnames r) None = None" if "\<not> length fieldnames < length r"
    using that by (simp add: map_of_eq_None_iff)
  then show ?thesis
    by (auto simp: dict_row_def Let_def map_of_dict_set)
qed

lemma reader_list_eq:
  "reader_list fieldnames rs err =
     (case err of
        None \<Rightarrow> Inr (map (dict_row fieldnames) (filter (\<lambda>r. r \<noteq> []) rs))
      | Some e \<Rightarrow> Inl e)"
  by (induction rs) (auto split: option.splits)

lemma read_csv_loop_nocap:
  "\<not> (\<exists>m. max_rows = Some m \<and> m \<noteq> 0) \<Longrightarrow>
   read_csv_loop fieldnames max_rows i rs err acc =
     (case err of
        None \<Rightarrow> Inr (acc @ map (dict_row fieldnames) (filter (\<lambda>r. r \<noteq> []) rs))
      | Some e \<Rightarrow> Inl e)"
  by (induction rs arbitrary: i acc) (auto simp: cap_reached_def Let_def split: option.splits)

lemma read_csv_loop_cap:
  "0 < m \<Longrightarrow> int i < m \<Longrightarrow>
   read_csv_loop fieldnames (Some m) i rs err acc =
     (let recs = map (dict_row fieldnames) (filter (\<lambda>r. r \<noteq> []) rs)
      in if nat m - i \<le> length recs then Inr (acc @ take (nat m - i) recs)
         else case err of None \<Rightarrow> Inr (acc @ recs) | Some e \<Rightarrow> Inl e)"
proof (induction rs arbitrary: i acc)
  case Nil
  then show ?case by (auto split: option.splits)
next
  case (Cons r rs)
  show ?case
  proof (cases "r = []")
    case True
    then show ?thesis using Cons by simp
  next
    case False
    show ?thesis
    proof (cases "cap_reached (Some m) (i + 1)")
      case True
      then have "nat m - i = 1" using Cons.prems by (auto simp: cap_reached_def)
      then show ?thesis using False True by (simp add: Let_def)
    next
      case notyet: False
      then have lt: "int (i + 1) < m" using Cons.prems by (auto simp: cap_reached_def)
      then have "nat m - i = Suc (nat m - (i + 1))" by linarith
      then show ?thesis
        using False notyet Cons.IH [OF Cons.prems(1) lt, of "acc @ [dict_row fieldnames r]"]
        by (simp add: Let_def split: option.splits)
    qed
  qed
qed

lemma read_csv_loop_rows:
  "read_csv_loop fieldnames max_rows i rs err acc = Inr rows \<Longrightarrow>
   set rows \<subseteq> set acc \<union> dict_row fieldnames ` set rs"
proof (induction rs arbitrary: i acc)
  case Nil
  then show ?case by (auto split: option.splits)
next
  case (Cons r rs)
  show ?case
  proof (cases "r = []")
    case True
    then show ?thesis using Cons.IH [of i acc] Cons.prems by auto
  next
    case False
    show ?thesis
    proof (cases "cap_reached max_rows (i + 1)")
      case True
      then show ?thesis using False Cons.prems by (auto simp: Let_def)
    next
      case notyet: False
      then show ?thesis
        using False Cons.IH [of "i + 1" "acc @ [dict_row fieldnames r]"] Cons.prems
        by (auto simp: Let_def)
    qed
  qed
qed

lemma read_csv_rows:
  assumes "read_csv p max_rows = Inr rows" "d \<in> set rows"
  shows "\<exists>fieldnames r. d = dict_row fieldnames r"
proof (cases p)
  case Missing
  then show ?thesis using assms by (simp add: read_csv_def)
next
  case (File j ls err)
  show ?thesis
  proof (cases ls)
    case Nil
    then show ?thesis using assms File by (auto simp: read_csv_def split: option.splits)
  next
    case (Cons fieldnames rs)
    then have "read_csv_loop fieldnames max_rows 0 rs err [] = Inr rows"
      using assms File by (simp add: read_csv_def)
    from read_csv_loop_rows [OF this] assms(2)
    have "d \<in> dict_row fieldnames ` set rs" by auto
    then obtain r where "d = dict_row fieldnames r" by (rule imageE)
    then show ?thesis by (intro exI)
  qed
qed

lemma dict_row_values:
  "(k, v) \<in> set (dict_row fieldnames r) \<Longrightarrow> (if k = None then text_list v else text_or_null v)"
  using values_dict_row [of k v fieldnames r]
  by (auto simp: text_list_def text_or_null_def is_text_def list_all_iff)

text \<open>
  C10, as stated: every value of a record is a text or null. A row longer than the header
  gives a record that holds the list of the extra cells under the key \<^verbatim>\<open>None\<close>, written to
  the document under the name \<^verbatim>\<open>"null"\<close>.
\<close>

theorem csv_to_json_rest_counterexample:
  "csv_to_json (File (Inl (RuntimeFailure ''not a document'')) [[''a''], [''1'', ''2'']] None)
     = Inr (JArr [JObj [(''a'', JStr ''1''), (''null'', JArr [JStr ''2''])]])
   \<and> \<not> text_or_null (JArr [JStr ''2''])"
  by (simp add: csv_to_json_def dict_row_def py_dict_def dump_dict_def dump_key_def text_or_null_def)

text \<open>
  C10, amended: every record of the delimited-row reader maps each field of the header to a
  text or to null (a short row binds the header fields it does not cover to null) and, for
  a row longer than the header, the key \<^verbatim>\<open>None\<close> to the list of the texts of the extra
  cells. So the document written by \<^verbatim>\<open>csv_to_json\<close> is a list of objects whose values are
  texts, nulls or, under the name \<^verbatim>\<open>"null"\<close>, lists of texts: no cell becomes a number.
\<close>

theorem csv_values_are_texts:
  "(read_csv p max_rows = Inr rows \<longrightarrow>
      (\<forall>d \<in> set rows. \<forall>(k, v) \<in> set d. if k = None then text_list v else text_or_null v))
   \<and> (csv_to_json p = Inr doc \<longrightarrow>
      (\<exists>ds. doc = JArr (map JObj ds) \<and>
         (\<forall>kvs \<in> set ds. \<forall>(k, v) \<in> set kvs. text_or_null v \<or> (k = ''null'' \<and> text_list v))))
   \<and> (\<forall>k \<in> set (drop (length r) fieldnames).
        map_of (dict_row fieldnames r) (Some k) = Some JNull)"
proof (intro conjI impI)
  assume rd: "read_csv p max_rows = Inr rows"
  show "\<forall>d \<in> set rows. \<forall>(k, v) \<in> set d. if k = None then text_list v else text_or_null v"
  proof
    fix d assume "d \<in> set rows"
    then obtain fieldnames r where "d = dict_row fieldnames r"
      using read_csv_rows [OF rd] by blast
    then show "\<forall>(k, v) \<in> set d. if k = None then text_list v else text_or_null v"
      using dict_row_values by blast
  qed
next
  assume doc: "csv_to_json p = Inr doc"
  show "\<exists>ds. doc = JArr (map JObj ds) \<and>
         (\<forall>kvs \<in> set ds. \<forall>(k, v) \<in> set kvs. text_or_null v \<or> (k = ''null'' \<and> text_list v))"
  proof (cases p)
    case Missing
    then show ?thesis using doc by (simp add: csv_to_json_def)
  next
    case (File j ls err)
    show ?thesis
    proof (cases ls)
      case Nil
      then have "doc = JArr (map JObj [])"
        using doc File by (auto simp: csv_to_json_def split: option.splits)
      then show ?thesis by force
    next
      case (Cons fieldnames rs)
      let ?data = "map (dict_row fieldnames) (filter (\<lambda>r. r \<noteq> []) rs)"
      let ?ds = "map (\<lambda>d. map (\<lambda>(k, v). (dump_key k, v)) d) ?data"
      have "doc = JArr (map dump_dict ?data)"
        using doc File Cons by (auto simp: csv_to_json_def reader_list_eq split: option.splits)
      then have "doc = JArr (map JObj ?ds)"
        by (simp add: dump_dict_def comp_def)
      moreover have "\<forall>kvs \<in> set ?ds. \<forall>(k, v) \<in> set kvs. text_or_null v \<or> (k = ''null'' \<and> text_list v)"
      proof
        fix kvs assume "kvs \<in> set ?ds"
        then obtain r where kvs: "kvs = map (\<lambda>(k, v). (dump_key k, v)) (dict_row fieldnames r)"
          by auto
        show "\<forall>(k, v) \<in> set kvs. text_or_null v \<or> (k = ''null'' \<and> text_list v)"
        proof
          fix kv assume "kv \<in> set kvs"
          then obtain k0 v where kv: "kv = (dump_key k0, v)"
            and mem: "(k0, v) \<in> set (dict_row fieldnames r)"
            using kvs by auto
          from dict_row_values [OF mem]
          show "case kv of (k, v) \<Rightarrow> text_or_null v \<or> (k = ''null'' \<and> text_list v)"
            by (cases k0) (simp_all add: kv dump_key_def)
        qed
      qed
      ultimately show ?thesis by (intro exI conjI)
    qed
  qed
next
  show "\<forall>k \<in> set (drop (length r) fieldnames).
          map_of (dict_row fieldnames r) (Some k) = Some JNull"
  proof
    fix k assume "k \<in> set (drop (length r) fieldnames)"
    moreover from this have "length r < length fieldnames"
      by (cases "length r < length fieldnames") auto
    ultimately show "map_of (dict_row fieldnames r) (Some k) = Some JNull"
      by (simp add: dict_row_def Let_def map_of_pad)
  qed
qed


theorem csv_values_are_texts_witness:
  "read_csv (File (Inl (RuntimeFailure ''not a document'')) [[''x'', ''y''], [''7''], [''7'', ''8'', ''9'']] None) None
     = Inr [[(Some ''x'', JStr ''7''), (Some ''y'', JNull)],
            [(Some ''x'', JStr ''7''), (Some ''y'', JStr ''8''), (None, JArr [JStr ''9''])]]
   \<and> text_list (JArr [JStr ''9'']) \<and> text_or_null (JStr ''8'')
   \<and> csv_to_json (File (Inl (RuntimeFailure ''not a document'')) [[''x'', ''y''], [''7''], [''7'', ''8'', ''9'']] None)
     = Inr (JArr [JObj [(''x'', JStr ''7''), (''y'', JNull)],
                  JObj [(''x'', JStr ''7''), (''y'', JStr ''8''), (''null'', JArr [JStr ''9''])]])
   \<and> map_of (dict_row [''x'', ''y''] [''7'']) (Some ''y'') = Some JNull"
proof -
  let ?p = "File (Inl (RuntimeFailure ''not a document'')) [[''x'', ''y''], [''7''], [''7'', ''8'', ''9'']] None"
  let ?rows = "[[(Some ''x'', JStr ''7''), (Some ''y'', JNull)],
            [(Some ''x'', JStr ''7''), (Some ''y'', JStr ''8''), (None, JArr [JStr ''9''])]]"
  let ?doc = "JArr [JObj [(''x'', JStr ''7''), (''y'', JNull)],
                  JObj [(''x'', JStr ''7''), (''y'', JStr ''8''), (''null'', JArr [JStr ''9''])]]"
  have rd: "read_csv ?p None = Inr ?rows"
    by (simp add: read_csv_def dict_row_def py_dict_def cap_reached_def)
  have doc: "csv_to_json ?p = Inr ?doc"
    by (simp add: csv_to_json_def dict_row_def py_dict_def dump_dict_def dump_key_def)
  note t = csv_values_are_texts [of ?p None ?rows ?doc "[''7'']" "[''x'', ''y'']"]
  from t rd have all: "\<forall>d \<in> set ?rows. \<forall>(k, v) \<in> set d. if k = None then text_list v else text_or_null v"
    by blast
  from all have "text_list (JArr [JStr ''9''])" "text_or_null (JStr ''8'')"
    by simp_all
  moreover from t have "\<forall>k \<in> set (drop (length [''7'']) [''x'', ''y'']).
        map_of (dict_row [''x'', ''y''] [''7'']) (Some k) = Some JNull"
    by blast
  then have "map_of (dict_row [''x'', ''y''] [''7'']) (Some ''y'') = Some JNull"
    by simp
  ultimately show ?thesis
    using rd doc by simp
qed

text \<open>
  C5, as stated: the fields of missing trailing cells are absent and extra trailing cells
  appear nowhere in the record. With the header \<^verbatim>\<open>a,b\<close>, the row \<^verbatim>\<open>1\<close> gives a record
  in which \<^verbatim>\<open>b\<close> is present, bound to null, and the row \<^verbatim>\<open>1,2,3\<close> a record that holds
  \<^verbatim>\<open>["3"]\<close> under the key \<^verbatim>\<open>None\<close>.
\<close>

theorem read_csv_short_long_counterexample:
  "read_csv (File (Inl (RuntimeFailure ''not a document'')) [[''a'', ''b''], [''1''], [''1'', ''2'', ''3'']] None) None
     = Inr [[(Some ''a'', JStr ''1''), (Some ''b'', JNull)],
            [(Some ''a'', JStr ''1''), (Some ''b'', JStr ''2''), (None, JArr [JStr ''3''])]]
   \<and> map_of [(Some ''a'', JStr ''1''), (Some ''b'', JNull)] (Some ''b'') \<noteq> None
   \<and> (None, JArr [JStr ''3''])
        \<in> set [(Some ''a'', JStr ''1''), (Some ''b'', JStr ''2''), (None, JArr [JStr ''3''])]"
  by (simp add: read_csv_def dict_row_def py_dict_def cap_reached_def)

text \<open>
  C5, amended: in delimited-row mode the reader builds one record for every data row that
  is not blank, without error. The record has the header fields as keys; a field (at its
  last place in the header) is bound to the text of the cell at that place, or to null when
  the row has no such cell; the cells beyond the header are kept as a list under the key
  \<^verbatim>\<open>None\<close>, which is absent otherwise.
\<close>

theorem dict_reader_rows:
  "read_csv (File j (fieldnames # rs) None) None
     = Inr (map (dict_row fieldnames) (filter (\<lambda>r. r \<noteq> []) rs))
   \<and> (\<forall>i < length fieldnames. fieldnames ! i \<notin> set (drop (Suc i) fieldnames) \<longrightarrow>
        map_of (dict_row fieldnames r) (Some (fieldnames ! i))
          = Some (if i < length r then JStr (r ! i) else JNull))
   \<and> map_of (dict_row fieldnames r) None
       = (if length fieldnames < length r
          then Some (JArr (map JStr (drop (length fieldnames) r))) else None)
   \<and> fst ` set (dict_row fieldnames r)
       = Some ` set fieldnames \<union> (if length fieldnames < length r then {None} else {})"
proof (intro conjI)
  show "read_csv (File j (fieldnames # rs) None) None
     = Inr (map (dict_row fieldnames) (filter (\<lambda>r. r \<noteq> []) rs))"
    by (simp add: read_csv_def read_csv_loop_nocap)
  show "\<forall>i < length fieldnames. fieldnames ! i \<notin> set (drop (Suc i) fieldnames) \<longrightarrow>
        map_of (dict_row fieldnames r) (Some (fieldnames ! i))
          = Some (if i < length r then JStr (r ! i) else JNull)"
    using map_of_dict_row_field by blast
  show "map_of (dict_row fieldnames r) None
       = (if length fieldnames < length r
          then Some (JArr (map JStr (drop (length fieldnames) r))) else None)"
    by (rule map_of_dict_row_rest)
  show "fst ` set (dict_row fieldnames r)
       = Some ` set fieldnames \<union> (if length fieldnames < length r then {None} else {})"
    by (rule keys_dict_row)
qed

theorem dict_reader_rows_witness:
  "(0::nat) < length [''k'', ''m''] \<and> [''k'', ''m''] ! 0 \<notin> set (drop (Suc 0) [''k'', ''m''])
   \<and> map_of (dict_row [''k'', ''m''] [''5'']) (Some ''k'') = Some (JStr ''5'')
   \<and> (1::nat) < length [''k'', ''m''] \<and> [''k'', ''m''] ! 1 \<notin> set (drop (Suc 1) [''k'', ''m''])
   \<and> map_of (dict_row [''k'', ''m''] [''5'']) (Some ''m'') = Some JNull
   \<and> map_of (dict_row [''k'', ''m''] [''5'']) None = None"
proof -
  note t = dict_reader_rows [of "Inl (RuntimeFailure [])" "[''k'', ''m'']" "[]" "[''5'']"]
  have h0: "(0::nat) < length [''k'', ''m''] \<and> [''k'', ''m''] ! 0 \<notin> set (drop (Suc 0) [''k'', ''m''])"
    by simp
  have h1: "(1::nat) < length [''k'', ''m''] \<and> [''k'', ''m''] ! 1 \<notin> set (drop (Suc 1) [''k'', ''m''])"
    by simp
  from t h0 have "map_of (dict_row [''k'', ''m''] [''5'']) (Some ([''k'', ''m''] ! 0))
          = Some (if 0 < length [''5''] then JStr ([''5''] ! 0) else JNull)"
    by blast
  moreover from t h1 have "map_of (dict_row [''k'', ''m''] [''5'']) (Some ([''k'', ''m''] ! 1))
          = Some (if 1 < length [''5''] then JStr ([''5''] ! 1) else JNull)"
    by blast
  moreover from t have "map_of (dict_row [''k'', ''m''] [''5'']) None
       = (if length [''k'', ''m''] < length [''5'']
          then Some (JArr (map JStr (drop (length [''k'', ''m'']) [''5'']))) else None)"
    by blast
  ultimately show ?thesis
    using h0 h1 by simp
qed

text \<open>
  C2, as stated, at the cap 0: both readers return all the records, here two, not none.
\<close>

theorem read_cap_zero_counterexample:
  "read_csv (File (Inl (RuntimeFailure ''not a document'')) [[''a''], [''1''], [''2'']] None) (Some 0)
     = Inr [[(Some ''a'', JStr ''1'')], [(Some ''a'', JStr ''2'')]]
   \<and> read_json (File (Inr (JArr [JObj [], JObj []])) [] None) (Some 0) = Inr [JObj [], JObj []]
   \<and> length [[(Some ''a'', JStr ''1'')], [(Some ''a'', JStr ''2'')]] \<noteq> min 0 2"
  by (simp add: read_csv_def read_json_def json_load_def dict_row_def py_dict_def cap_reached_def)

lemma read_csv_cap:
  assumes "0 < n" "read_csv p None = Inr all_rows"
  shows "read_csv p (Some n) = Inr (take (nat n) all_rows)"
proof (cases p)
  case Missing
  then show ?thesis using assms by (simp add: read_csv_def)
next
  case (File j ls err)
  show ?thesis
  proof (cases ls)
    case Nil
    then show ?thesis using assms File by (auto simp: read_csv_def split: option.splits)
  next
    case (Cons fieldnames rs)
    let ?recs = "map (dict_row fieldnames) (filter (\<lambda>r. r \<noteq> []) rs)"
    have "read_csv_loop fieldnames None 0 rs err [] = Inr all_rows"
      using assms File Cons by (simp add: read_csv_def)
    then have err: "err = None" and all: "all_rows = ?recs"
      by (auto simp: read_csv_loop_nocap split: option.splits)
    have "read_csv_loop fieldnames (Some n) 0 rs err [] = Inr (take (nat n) ?recs)"
      using assms(1) by (simp add: read_csv_loop_cap Let_def err)
    then show ?thesis
      using File Cons all by (simp add: read_csv_def)
  qed
qed

lemma read_json_cap:
  assumes "0 < n" "read_json p None = Inr all_items"
  shows "read_json p (Some n) = Inr (take (nat n) all_items)"
proof (cases "json_load p")
  case (Inl e)
  then show ?thesis using assms by (simp add: read_json_def)
next
  case (Inr data)
  have one: "take (nat n) [data] = [data]"
    using assms(1) by (cases "nat n") auto
  show ?thesis
    using assms Inr one by (cases data) (auto simp: read_json_def slice_to_def)
qed

text \<open>
  C2, amended: for every cap \<open>n \<ge> 1\<close>, \<^verbatim>\<open>read_csv\<close> and \<^verbatim>\<open>read_json\<close> return the first
  \<open>min n total\<close> records of the source in their order, where the records of the source are
  what the reader returns without a cap; the cap 0 is taken as no cap and all records are
  returned.
\<close>

theorem read_cap:
  "(0 < n \<and> read_csv p None = Inr all_rows \<longrightarrow>
      read_csv p (Some n) = Inr (take (nat n) all_rows)
      \<and> length (take (nat n) all_rows) = min (nat n) (length all_rows))
   \<and> (0 < n \<and> read_json p None = Inr all_items \<longrightarrow>
      read_json p (Some n) = Inr (take (nat n) all_items)
      \<and> length (take (nat n) all_items) = min (nat n) (length all_items))
   \<and> read_csv p (Some 0) = read_csv p None
   \<and> read_json p (Some 0) = read_json p None"
proof (intro conjI impI)
  show "read_csv p (Some 0) = read_csv p None"
    by (auto simp: read_csv_def read_csv_loop_nocap split: source_file.splits list.splits)
  show "read_json p (Some 0) = read_json p None"
    by (simp add: read_json_def split: sum.splits json.splits)
qed (auto simp: read_csv_cap read_json_cap min_def)

theorem read_cap_witness:
  "(0::int) < 2
   \<and> read_csv (File (Inl (RuntimeFailure ''not a document'')) [[''a''], [''1''], [], [''2''], [''3'']] None) None
       = Inr [[(Some ''a'', JStr ''1'')], [(Some ''a'', JStr ''2'')], [(Some ''a'', JStr ''3'')]]
   \<and> read_csv (File (Inl (RuntimeFailure ''not a document'')) [[''a''], [''1''], [], [''2''], [''3'']] None) (Some 2)
       = Inr [[(Some ''a'', JStr ''1'')], [(Some ''a'', JStr ''2'')]]
   \<and> read_json (File (Inr (JArr [JInt 1, JInt 2, JInt 3])) [] None) None = Inr [JInt 1, JInt 2, JInt 3]
   \<and> read_json (File (Inr (JArr [JInt 1, JInt 2, JInt 3])) [] None) (Some 2) = Inr [JInt 1, JInt 2]"
proof -
  let ?p = "File (Inl (RuntimeFailure ''not a document'')) [[''a''], [''1''], [], [''2''], [''3'']] None"
  let ?all = "[[(Some ''a'', JStr ''1'')], [(Some ''a'', JStr ''2'')], [(Some ''a'', JStr ''3'')]]"
  let ?q = "File (Inr (JArr [JInt 1, JInt 2, JInt 3])) [] None"
  have c: "read_csv ?p None = Inr ?all"
    by (simp add: read_csv_def dict_row_def py_dict_def cap_reached_def)
  have j: "read_json ?q None = Inr [JInt 1, JInt 2, JInt 3]"
    by (simp add: read_json_def json_load_def)
  have two: "nat 2 = Suc (Suc 0)" by simp
  from read_cap [of 2 ?p ?all] c have "read_csv ?p (Some 2) = Inr (take (nat 2) ?all)"
    by simp
  moreover from read_cap [of 2 ?q _ "[JInt 1, JInt 2, JInt 3]"] j
  have "read_json ?q (Some 2) = Inr (take (nat 2) [JInt 1, JInt 2, JInt 3])"
    by simp
  ultimately show ?thesis
    using c j by (simp add: two)
qed



section \<open>The flattener\<close>

lemma fold_update_fields:
  "foldl update_fields acc items = acc \<union> field_names items"
  by (induction items arbitrary: acc)
     (auto simp: field_names_def update_fields_def split: json.splits)

lemma finite_field_names: "finite (field_names items)"
  by (auto simp: field_names_def split: json.splits)

lemma field_names_objects: "field_names (map JObj ds) = (\<Union>kvs \<in> set ds. fst ` set kvs)"
  by (simp add: field_names_def)

lemma build_row_object:
  "\<exists>row'. build_row (JObj kvs) ks row = Inr row'
      \<and> (\<forall>k. map_of row' k = (if k \<in> set ks then Some (stored kvs k) else map_of row k))"
proof (induction ks arbitrary: row)
  case Nil
  then show ?case by simp
next
  case (Cons k ks)
  let ?row = "dict_set k (stored kvs k) row"
  from Cons [of ?row] obtain row' where
    r: "build_row (JObj kvs) ks ?row = Inr row'"
    and m: "\<forall>k'. map_of row' k' = (if k' \<in> set ks then Some (stored kvs k') else map_of ?row k')"
    by blast
  have "build_row (JObj kvs) (k # ks) row = Inr row'"
    using r by (simp add: item_get_def stored_def Let_def)
  moreover have "\<forall>k'. map_of row' k' = (if k' \<in> set (k # ks) then Some (stored kvs k') else map_of row k')"
    using m by (auto simp: map_of_dict_set)
  ultimately show ?case by blast
qed

lemma cell_text_stored: "cell_text (stored kvs k) = spec_cell kvs k"
  by (cases "map_of kvs k")
     (auto simp: stored_def spec_cell_def cell_text_def is_container_def py_str_def Let_def
        split: json.splits)

lemma build_row_no_fields: "build_row item [] row = Inr row"
  by simp

lemma build_row_non_object:
  "\<not> is_object item \<Longrightarrow> build_row item (k # ks) row = Inl (no_attribute item ''get'')"
  by (cases item) (simp_all add: is_object_def item_get_def)

lemma writerow_object:
  assumes "build_row (JObj kvs) fields [] = Inr row"
  shows "writerow fields row = map (spec_cell kvs) fields"
proof -
  from build_row_object [of kvs fields "[]"] assms
  have "\<forall>k. map_of row k = (if k \<in> set fields then Some (stored kvs k) else None)"
    by simp
  then show ?thesis
    by (simp add: writerow_def cell_text_stored)
qed

lemma write_items_objects:
  "write_items fields (map JObj ds) out = Wrote (out @ map (\<lambda>kvs. map (spec_cell kvs) fields) ds)"
proof (induction ds arbitrary: out)
  case Nil
  then show ?case by simp
next
  case (Cons kvs ds)
  obtain row where row: "build_row (JObj kvs) fields [] = Inr row"
    using build_row_object [of kvs fields "[]"] by blast
  show ?case
    using Cons [of "out @ [writerow fields row]"] by (simp add: row writerow_object [OF row])
qed

lemma write_items_non_object:
  assumes "\<not> is_object x" "fields \<noteq> []"
  shows "write_items fields (map JObj pre @ x # post) out
           = Failed (no_attribute x ''get'') (Some (out @ map (\<lambda>kvs. map (spec_cell kvs) fields) pre))"
proof (induction pre arbitrary: out)
  case Nil
  from assms(2) obtain k ks where "fields = k # ks" by (cases fields) auto
  then show ?case
    using build_row_non_object [OF assms(1)] by simp
next
  case (Cons kvs pre)
  obtain row where row: "build_row (JObj kvs) fields [] = Inr row"
    using build_row_object [of kvs fields "[]"] by blast
  show ?case
    using Cons [of "out @ [writerow fields row]"] by (simp add: row writerow_object [OF row])
qed

lemma write_items_no_fields:
  "write_items [] items out = Wrote (out @ map (\<lambda>item. []) items)"
  by (induction items arbitrary: out) (simp_all add: writerow_def)

lemma writeheader_distinct: "distinct fields \<Longrightarrow> writeheader fields = fields"
proof -
  assume d: "distinct fields"
  have "py_dict (zip fields (map JStr fields)) = zip fields (map JStr fields)"
    using d by (simp add: py_dict_distinct)
  then show ?thesis
    by (simp add: writeheader_def writerow_def map_of_zip_map cell_text_def map_idI)
qed

lemma json_to_csv_array:
  "json_to_csv (File (Inr (JArr items)) ls err)
     = write_items (sorted_list_of_set (field_names items)) items
         [sorted_list_of_set (field_names items)]"
  by (simp add: json_to_csv_def json_load_def Let_def fold_update_fields writeheader_distinct)

lemma json_to_csv_object:
  "json_to_csv (File (Inr (JObj kvs)) ls err)
     = write_items (sorted_list_of_set (field_names [JObj kvs])) [JObj kvs]
         [sorted_list_of_set (field_names [JObj kvs])]"
  by (simp add: json_to_csv_def json_load_def Let_def fold_update_fields writeheader_distinct)

text \<open>
  C6: for every dataset of records (and for a single record as root) the flattener writes as
  header the field names of all records, sorted ascending and without repetition, and for
  each record, in order, the row of its cells for the header fields: empty text where the
  field is absent or null, the \<^verbatim>\<open>json.dumps\<close> text of a sub-mapping or sequence, the default
  text of a scalar.
\<close>

theorem json_to_csv_records:
  "json_to_csv (File (Inr (JArr (map JObj ds))) ls err)
     = Wrote (sorted_list_of_set (field_names (map JObj ds))
              # map (\<lambda>kvs. map (spec_cell kvs) (sorted_list_of_set (field_names (map JObj ds)))) ds)
   \<and> json_to_csv (File (Inr (JObj kvs)) ls err)
     = Wrote [sorted_list_of_set (field_names [JObj kvs]),
              map (spec_cell kvs) (sorted_list_of_set (field_names [JObj kvs]))]
   \<and> field_names (map JObj ds) = (\<Union>kvs \<in> set ds. fst ` set kvs)
   \<and> sorted (sorted_list_of_set (field_names (map JObj ds)))
   \<and> distinct (sorted_list_of_set (field_names (map JObj ds)))
   \<and> set (sorted_list_of_set (field_names (map JObj ds))) = field_names (map JObj ds)"
proof (intro conjI)
  show "json_to_csv (File (Inr (JArr (map JObj ds))) ls err)
     = Wrote (sorted_list_of_set (field_names (map JObj ds))
              # map (\<lambda>kvs. map (spec_cell kvs) (sorted_list_of_set (field_names (map JObj ds)))) ds)"
    by (simp only: json_to_csv_array write_items_objects append_Cons append_Nil)
  show "json_to_csv (File (Inr (JObj kvs)) ls err)
     = Wrote [sorted_list_of_set (field_names [JObj kvs]),
              map (spec_cell kvs) (sorted_list_of_set (field_names [JObj kvs]))]"
    using write_items_objects [of "sorted_list_of_set (field_names [JObj kvs])" "[kvs]"]
    by (simp add: json_to_csv_object)
  show "field_names (map JObj ds) = (\<Union>kvs \<in> set ds. fst ` set kvs)"
    by (rule field_names_objects)
  show "set (sorted_list_of_set (field_names (map JObj ds))) = field_names (map JObj ds)"
    by (simp add: finite_field_names)
qed simp_all

lemma fields_x_y: "sorted_list_of_set (field_names [JObj [(''x'', JInt 1), (''y'', JObj [(''z'', JInt 2)])]]) = [''x'', ''y'']"
  by code_simp

lemma cells_x_y:
  "map (spec_cell [(''x'', JInt 1), (''y'', JObj [(''z'', JInt 2)])]) [''x'', ''y'']
     = [''1'', CHR ''{'' # dquote # ''z'' @ dquote # '': 2}'']"
  by code_simp

theorem json_to_csv_records_witness:
  "json_to_csv (File (Inr (JObj [(''x'', JInt 1), (''y'', JObj [(''z'', JInt 2)])])) [] None)
     = Wrote [[''x'', ''y''], [''1'', CHR ''{'' # dquote # ''z'' @ dquote # '': 2}'']]"
  using json_to_csv_records [of "[]" "[]" None "[(''x'', JInt 1), (''y'', JObj [(''z'', JInt 2)])]"]
  by (simp only: fields_x_y cells_x_y)

text \<open>
  C4, as stated: a dataset with an element that is not a record fails. The dataset \<^verbatim>\<open>[5]\<close>
  has no field name at all, no lookup is made, and the conversion succeeds with an empty
  header row and an empty data row.
\<close>

theorem json_to_csv_scalar_counterexample:
  "json_to_csv (File (Inr (JArr [JInt 5])) [] None) = Wrote [[], []]
   \<and> \<not> is_object (JInt 5)"
  by (simp add: json_to_csv_array field_names_def write_items_no_fields writerow_def is_object_def)

text \<open>
  C4, amended: when some record of the dataset has a field, the conversion fails at the
  first element that is not a record, with the \<^verbatim>\<open>AttributeError\<close> of the lookup
  \<^verbatim>\<open>item.get\<close>, whose message names the type of the element and not its index; by then the
  header row and the rows of the records before that element are written. When no record
  has a field, the conversion succeeds and writes an empty header row and one empty row
  for every element.
\<close>

theorem json_to_csv_non_record:
  "(\<not> is_object x \<and> field_names (map JObj pre @ x # post) \<noteq> {} \<longrightarrow>
      json_to_csv (File (Inr (JArr (map JObj pre @ x # post))) ls err)
        = Failed (no_attribute x ''get'')
            (Some (sorted_list_of_set (field_names (map JObj pre @ x # post))
                   # map (\<lambda>kvs. map (spec_cell kvs)
                                 (sorted_list_of_set (field_names (map JObj pre @ x # post)))) pre)))
   \<and> (field_names items = {} \<longrightarrow>
      json_to_csv (File (Inr (JArr items)) ls err) = Wrote ([] # map (\<lambda>item. []) items))"
proof (intro conjI impI)
  assume a: "\<not> is_object x \<and> field_names (map JObj pre @ x # post) \<noteq> {}"
  let ?fields = "sorted_list_of_set (field_names (map JObj pre @ x # post))"
  have "?fields \<noteq> []"
    using a by (simp add: finite_field_names)
  with a show "json_to_csv (File (Inr (JArr (map JObj pre @ x # post))) ls err)
        = Failed (no_attribute x ''get'') (Some (?fields # map (\<lambda>kvs. map (spec_cell kvs) ?fields) pre))"
    by (simp add: json_to_csv_array write_items_non_object)
next
  assume "field_names items = {}"
  then show "json_to_csv (File (Inr (JArr items)) ls err) = Wrote ([] # map (\<lambda>item. []) items)"
    by (simp add: json_to_csv_array write_items_no_fields)
qed

lemma fields_witness:
  "sorted_list_of_set (field_names [JObj [(''x'', JInt 1)], JInt 5, JObj []]) = [''x'']"
  by code_simp

theorem json_to_csv_non_record_witness:
  "\<not> is_object (JInt 5) \<and> field_names (map JObj [[(''x'', JInt 1)]] @ JInt 5 # [JObj []]) \<noteq> {}
   \<and> json_to_csv (File (Inr (JArr [JObj [(''x'', JInt 1)], JInt 5, JObj []])) [] None)
       = Failed (AttributeError (squote # ''int'' @ squote # '' object has no attribute '' @ squote # ''get'' @ [squote]))
           (Some [[''x''], [''1'']])
   \<and> field_names [JStr ''s'', JObj []] = {}
   \<and> json_to_csv (File (Inr (JArr [JStr ''s'', JObj []])) [] None) = Wrote [[], [], []]"
proof -
  have h: "\<not> is_object (JInt 5) \<and> field_names (map JObj [[(''x'', JInt 1)]] @ JInt 5 # [JObj []]) \<noteq> {}"
    by (simp add: is_object_def field_names_def)
  have e: "field_names [JStr ''s'', JObj []] = {}"
    by (simp add: field_names_def)
  have c: "spec_cell [(''x'', JInt 1)] ''x'' = ''1''"
    by code_simp
  from json_to_csv_non_record [of "JInt 5" "[[(''x'', JInt 1)]]" "[JObj []]" "[]" None] h
  have "json_to_csv (File (Inr (JArr (map JObj [[(''x'', JInt 1)]] @ JInt 5 # [JObj []]))) [] None)
        = Failed (no_attribute (JInt 5) ''get'')
            (Some (sorted_list_of_set (field_names (map JObj [[(''x'', JInt 1)]] @ JInt 5 # [JObj []]))
                   # map (\<lambda>kvs. map (spec_cell kvs)
                                 (sorted_list_of_set (field_names (map JObj [[(''x'', JInt 1)]] @ JInt 5 # [JObj []])))) [[(''x'', JInt 1)]]))"
    by blast
  then have "json_to_csv (File (Inr (JArr [JObj [(''x'', JInt 1)], JInt 5, JObj []])) [] None)
       = Failed (AttributeError (squote # ''int'' @ squote # '' object has no attribute '' @ squote # ''get'' @ [squote]))
           (Some [[''x''], [''1'']])"
    by (simp add: fields_witness c no_attribute_def type_name_def)
  moreover from json_to_csv_non_record [where items = "[JStr ''s'', JObj []]" and ls = "[]" and err = None] e
  have "json_to_csv (File (Inr (JArr [JStr ''s'', JObj []])) [] None) = Wrote [[], [], []]"
    by simp
  ultimately show ?thesis
    using h e by simp
qed

section \<open>The round trip\<close>

lemma map_of_dump_keys:
  "None \<notin> fst ` set d \<Longrightarrow> map_of (map (\<lambda>(k, v). (dump_key k, v)) d) k = map_of d (Some k)"
proof (induction d)
  case Nil
  then show ?case by simp
next
  case (Cons kv d)
  obtain k0 v where kv: "kv = (k0, v)" by (cases kv)
  from Cons.prems obtain s where s: "k0 = Some s" by (cases k0) (auto simp: kv)
  from Cons show ?case by (auto simp: kv s dump_key_def)
qed

lemma distinct_dump_keys:
  assumes "distinct (map fst d)" "None \<notin> fst ` set d"
  shows "distinct (map fst (map (\<lambda>(k, v). (dump_key k, v)) d))"
proof -
  have eq: "map fst (map (\<lambda>(k, v). (dump_key k, v)) d) = map dump_key (map fst d)"
    by (induction d) auto
  have inj: "inj_on dump_key (set (map fst d))"
  proof (rule inj_onI)
    fix a b assume "a \<in> set (map fst d)" "b \<in> set (map fst d)" "dump_key a = dump_key b"
    with assms(2) show "a = b"
      by (cases a; cases b) (auto simp: dump_key_def)
  qed
  have "distinct (map dump_key (map fst d))"
    using assms(1) inj distinct_map [of dump_key "map fst d"] by blast
  then show ?thesis
    by (simp only: eq)
qed

lemma reloaded_row:
  assumes "length r \<le> length fieldnames"
  shows "reloaded (dump_dict (dict_row fieldnames r))
           = JObj (map (\<lambda>(k, v). (dump_key k, v)) (dict_row fieldnames r))"
proof -
  let ?d = "dict_row fieldnames r"
  let ?kvs = "map (\<lambda>(k, v). (dump_key k, v)) ?d"
  have nonone: "None \<notin> fst ` set ?d"
    using assms by (simp add: keys_dict_row)
  have vals: "reloaded v = v" if "(k, v) \<in> set ?d" for k v
    using values_dict_row [OF that] assms by auto
  have same: "map (\<lambda>(k, v). (k, reloaded v)) ?kvs = ?kvs"
    by (rule map_idI) (auto simp: vals)
  have dict: "py_dict ?kvs = ?kvs"
    using distinct_dump_keys [OF distinct_dict_row nonone] by (rule py_dict_distinct)
  have "reloaded (dump_dict ?d) = JObj (py_dict (map (\<lambda>(k, v). (k, reloaded v)) ?kvs))"
    by (simp only: dump_dict_def reloaded.simps)
  then show ?thesis
    by (simp only: same dict)
qed

lemma spec_cell_dumped:
  assumes "length r \<le> length fieldnames"
  shows "spec_cell (map (\<lambda>(k, v). (dump_key k, v)) (dict_row fieldnames r)) k
           = record_text (dict_row fieldnames r) k"
proof -
  let ?d = "dict_row fieldnames r"
  have nonone: "None \<notin> fst ` set ?d"
    using assms by (simp add: keys_dict_row)
  show ?thesis
  proof (cases "map_of ?d (Some k)")
    case None
    then show ?thesis
      by (simp add: spec_cell_def record_text_def map_of_dump_keys [OF nonone])
  next
    case (Some v)
    then have "(Some k, v) \<in> set ?d" by (rule map_of_SomeD)
    from values_dict_row [OF this] have "(\<exists>s. v = JStr s) \<or> v = JNull" by simp
    then show ?thesis
      using Some
      by (auto simp: spec_cell_def record_text_def map_of_dump_keys [OF nonone]
            is_container_def py_str_def)
  qed
qed

lemma field_names_dumped:
  assumes "recs \<noteq> []" "\<forall>r \<in> set recs. length r \<le> length fieldnames"
  shows "field_names (map JObj (map (\<lambda>r. map (\<lambda>(k, v). (dump_key k, v)) (dict_row fieldnames r)) recs))
           = set fieldnames"
proof -
  have one: "fst ` set (map (\<lambda>(k, v). (dump_key k, v)) (dict_row fieldnames r)) = set fieldnames"
    if "length r \<le> length fieldnames" for r
  proof -
    have "fst ` set (map (\<lambda>(k, v). (dump_key k, v)) (dict_row fieldnames r))
            = dump_key ` fst ` set (dict_row fieldnames r)"
      by (force simp: image_iff)
    also have "\<dots> = dump_key ` Some ` set fieldnames"
      using that by (simp add: keys_dict_row)
    also have "\<dots> = set fieldnames"
      by (simp add: image_image dump_key_def)
    finally show ?thesis .
  qed
  have "field_names (map JObj (map (\<lambda>r. map (\<lambda>(k, v). (dump_key k, v)) (dict_row fieldnames r)) recs))
          = (\<Union>r \<in> set recs. fst ` set (map (\<lambda>(k, v). (dump_key k, v)) (dict_row fieldnames r)))"
    by (simp add: field_names_def)
  also have "\<dots> = (\<Union>r \<in> set recs. set fieldnames)"
    using assms(2) one by simp
  also have "\<dots> = set fieldnames"
    using assms(1) by (cases recs) auto
  finally show ?thesis .
qed

lemma round_trip_rows:
  assumes "filter (\<lambda>r. r \<noteq> []) rs \<noteq> []" "\<forall>r \<in> set rs. length r \<le> length fieldnames"
  shows "round_trip (File j (fieldnames # rs) None)
      = Wrote (sorted_list_of_set (set fieldnames)
               # map (\<lambda>r. map (record_text (dict_row fieldnames r))
                             (sorted_list_of_set (set fieldnames)))
                   (filter (\<lambda>r. r \<noteq> []) rs))"
proof -
  let ?recs = "filter (\<lambda>r. r \<noteq> []) rs"
  let ?obj = "\<lambda>r. map (\<lambda>(k, v). (dump_key k, v)) (dict_row fieldnames r)"
  let ?hdr = "sorted_list_of_set (set fieldnames)"
  have short: "\<forall>r \<in> set ?recs. length r \<le> length fieldnames"
    using assms(2) by simp
  have doc: "csv_to_json (File j (fieldnames # rs) None)
               = Inr (JArr (map dump_dict (map (dict_row fieldnames) ?recs)))"
    by (simp add: csv_to_json_def reader_list_eq)
  have "map reloaded (map dump_dict (map (dict_row fieldnames) ?recs)) = map JObj (map ?obj ?recs)"
    using short by (simp add: reloaded_row)
  then have rel: "reloaded (JArr (map dump_dict (map (dict_row fieldnames) ?recs)))
               = JArr (map JObj (map ?obj ?recs))"
    by simp
  have names: "field_names (map JObj (map ?obj ?recs)) = set fieldnames"
    using field_names_dumped [OF assms(1) short] .
  have "round_trip (File j (fieldnames # rs) None)
          = json_to_csv (File (Inr (JArr (map JObj (map ?obj ?recs)))) [] None)"
    by (simp only: round_trip_def doc rel sum.case)
  also have "\<dots> = Wrote (?hdr # map (\<lambda>kvs. map (spec_cell kvs) ?hdr) (map ?obj ?recs))"
    by (simp only: json_to_csv_array write_items_objects names append_Cons append_Nil)
  also have "map (\<lambda>kvs. map (spec_cell kvs) ?hdr) (map ?obj ?recs)
               = map (\<lambda>r. map (record_text (dict_row fieldnames r)) ?hdr) ?recs"
    using short by (simp add: spec_cell_dumped)
  finally show ?thesis .
qed

lemma record_text_cell:
  assumes "i < length r" "i < length fieldnames" "fieldnames ! i \<notin> set (drop (Suc i) fieldnames)"
  shows "record_text (dict_row fieldnames r) (fieldnames ! i) = r ! i"
  using map_of_dict_row_field [OF assms(2,3), of r] assms(1) by (simp add: record_text_def)

text \<open>
  C9, as stated: the round trip keeps the header as a set. A delimited file with the header
  \<^verbatim>\<open>a\<close> and no data row becomes the empty document, and the document becomes a file with
  an empty header.
\<close>

theorem round_trip_header_only_counterexample:
  "round_trip (File (Inl (RuntimeFailure ''not a document'')) [[''a'']] None) = Wrote [[]]
   \<and> set ([] :: string list) \<noteq> set [''a'']"
  by (simp add: round_trip_def csv_to_json_def json_to_csv_array field_names_def)

text \<open>
  C9, amended: for a delimited file with at least one data row and no row longer than the
  header, converting to the hierarchical format and back gives as header the names of the
  original header, sorted and without repetition, so the same header as a set; and one row
  for every data row, in the original order, whose cell for a field is the text the record
  of that row holds for it, empty where the row was too short. For a field at its last
  place in the header that text is the original cell.
\<close>

theorem round_trip_cells:
  "(filter (\<lambda>r. r \<noteq> []) rs \<noteq> [] \<and> (\<forall>r \<in> set rs. length r \<le> length fieldnames) \<longrightarrow>
      round_trip (File j (fieldnames # rs) None)
        = Wrote (sorted_list_of_set (set fieldnames)
                 # map (\<lambda>r. map (record_text (dict_row fieldnames r))
                               (sorted_list_of_set (set fieldnames)))
                     (filter (\<lambda>r. r \<noteq> []) rs)))
   \<and> set (sorted_list_of_set (set fieldnames)) = set fieldnames
   \<and> (\<forall>r i. i < length r \<and> i < length fieldnames
              \<and> fieldnames ! i \<notin> set (drop (Suc i) fieldnames) \<longrightarrow>
          record_text (dict_row fieldnames r) (fieldnames ! i) = r ! i)"
  using round_trip_rows record_text_cell by simp

lemma sorted_name_age: "sorted_list_of_set (set [''name'', ''age'']) = [''age'', ''name'']"
  by code_simp

theorem round_trip_cells_witness:
  "filter (\<lambda>r. r \<noteq> []) [[''Ada'', ''36''], [], [''Lin'']] \<noteq> []
   \<and> length [''Ada'', ''36''] \<le> length [''name'', ''age'']
   \<and> length ([] :: string list) \<le> length [''name'', ''age'']
   \<and> length [''Lin''] \<le> length [''name'', ''age'']
   \<and> round_trip (File (Inl (RuntimeFailure ''not a document''))
        [[''name'', ''age''], [''Ada'', ''36''], [], [''Lin'']] None)
       = Wrote [[''age'', ''name''], [''36'', ''Ada''], ['''', ''Lin'']]"
proof -
  let ?rs = "[[''Ada'', ''36''], [], [''Lin'']]"
  let ?fn = "[''name'', ''age'']"
  have h: "filter (\<lambda>r. r \<noteq> []) ?rs \<noteq> [] \<and> (\<forall>r \<in> set ?rs. length r \<le> length ?fn)"
    by simp
  have cells:
    "record_text (dict_row ?fn [''Ada'', ''36'']) ''age'' = ''36''"
    "record_text (dict_row ?fn [''Ada'', ''36'']) ''name'' = ''Ada''"
    "record_text (dict_row ?fn [''Lin'']) ''age'' = []"
    "record_text (dict_row ?fn [''Lin'']) ''name'' = ''Lin''"
    by (simp_all add: record_text_def dict_row_def py_dict_def)
  from round_trip_cells [of ?rs ?fn "Inl (RuntimeFailure ''not a document'')"] h
  have "round_trip (File (Inl (RuntimeFailure ''not a document'')) (?fn # ?rs) None)
        = Wrote (sorted_list_of_set (set ?fn)
                 # map (\<lambda>r. map (record_text (dict_row ?fn r)) (sorted_list_of_set (set ?fn)))
                     (filter (\<lambda>r. r \<noteq> []) ?rs))"
    by blast
  then have "round_trip (File (Inl (RuntimeFailure ''not a document'')) (?fn # ?rs) None)
       = Wrote [[''age'', ''name''], [''36'', ''Ada''], ['''', ''Lin'']]"
    by (simp only: sorted_name_age) (simp add: cells)
  then show ?thesis by simp
qed

end
